theory Spec2Isabelle
  imports Complex_Main "HOL-Library.Word" "HOL-Library.Monad_Syntax"
begin

section \<open>JavaScript numbers, bytes and the DataView\<close>

text \<open>
  The chat component (\<^verbatim>\<open>ChatInterface\<close>) records audio, converts it in the browser to
  a mono 16-bit PCM WAV file and hands it to a transcription service. This theory embeds
  the functions of that component.

  The samples of an \<^verbatim>\<open>AudioBuffer\<close> are 32-bit floats, and decoded audio is
  finite. The encoder clamps a sample to \<open>[-1, 1]\<close> and multiplies it by \<open>0x8000\<close> or
  \<open>0x7FFF\<close>: a 24-bit significand times a 15-bit integer is exact in a double, so the
  products are the products of the reals, and a sample is modelled as a \<^typ>\<open>real\<close>.
  Calls of \<^verbatim>\<open>console.error\<close> are left out.
\<close>

type_synonym byte = "8 word"

text \<open>The integer part of a finite Number (\<^verbatim>\<open>ToIntegerOrInfinity\<close>): truncation.\<close>

definition js_trunc :: "real \<Rightarrow> int" where
  "js_trunc x = (if x < 0 then \<lceil>x\<rceil> else \<lfloor>x\<rfloor>)"

text \<open>The conversions a typed array and a DataView apply to the Number they store.\<close>

definition ToUint8 :: "real \<Rightarrow> nat" where
  "ToUint8 x = nat (js_trunc x mod 2 ^ 8)"

definition ToUint16 :: "real \<Rightarrow> nat" where
  "ToUint16 x = nat (js_trunc x mod 2 ^ 16)"

definition ToUint32 :: "real \<Rightarrow> nat" where
  "ToUint32 x = nat (js_trunc x mod 2 ^ 32)"

definition ToInt16 :: "real \<Rightarrow> int" where
  "ToInt16 x = (let int16bit = js_trunc x mod 2 ^ 16
                in if int16bit \<ge> 2 ^ 15 then int16bit - 2 ^ 16 else int16bit)"

text \<open>\<^verbatim>\<open>NumericToRawBytes\<close>: the \<open>k\<close> bytes of an unsigned value, lowest first.\<close>

fun le_bytes :: "nat \<Rightarrow> nat \<Rightarrow> byte list" where
  "le_bytes 0 v = []"
| "le_bytes (Suc k) v = of_nat (v mod 256) # le_bytes k (v div 256)"

definition raw_bytes :: "nat \<Rightarrow> nat \<Rightarrow> bool \<Rightarrow> byte list" where
  "raw_bytes k v littleEndian = (if littleEndian then le_bytes k v else rev (le_bytes k v))"

text \<open>
  \<^verbatim>\<open>SetViewValue\<close>: a write that does not fit in the buffer throws a RangeError
  (\<open>None\<close>); otherwise the bytes at the offset are replaced.
\<close>

definition setViewValue :: "byte list \<Rightarrow> nat \<Rightarrow> byte list \<Rightarrow> byte list option" where
  "setViewValue view byteOffset raw =
     (if byteOffset + length raw \<le> length view
      then Some (take byteOffset view @ raw @ drop (byteOffset + length raw) view)
      else None)"

definition setUint8 :: "byte list \<Rightarrow> nat \<Rightarrow> real \<Rightarrow> byte list option" where
  "setUint8 view byteOffset v = setViewValue view byteOffset (raw_bytes 1 (ToUint8 v) True)"

definition setUint16 :: "byte list \<Rightarrow> nat \<Rightarrow> real \<Rightarrow> bool \<Rightarrow> byte list option" where
  "setUint16 view byteOffset v littleEndian =
     setViewValue view byteOffset (raw_bytes 2 (ToUint16 v) littleEndian)"

definition setUint32 :: "byte list \<Rightarrow> nat \<Rightarrow> real \<Rightarrow> bool \<Rightarrow> byte list option" where
  "setUint32 view byteOffset v littleEndian =
     setViewValue view byteOffset (raw_bytes 4 (ToUint32 v) littleEndian)"

text \<open>A negative Int16 is stored in two's complement: its value modulo \<open>2 ^ 16\<close>.\<close>

definition setInt16 :: "byte list \<Rightarrow> nat \<Rightarrow> real \<Rightarrow> bool \<Rightarrow> byte list option" where
  "setInt16 view byteOffset v littleEndian =
     setViewValue view byteOffset (raw_bytes 2 (nat (ToInt16 v mod 2 ^ 16)) littleEndian)"


section \<open>The PCM/WAV encoder: \<^verbatim>\<open>audioBufferToWav\<close>\<close>

record AudioBuffer =
  sampleRate :: real
  channelData :: "real list"  \<comment> \<open>\<^verbatim>\<open>getChannelData(0)\<close>\<close>

record Blob =
  blob_data :: "byte list"
  blob_type :: string

text \<open>
  The body of the conversion loop: clamp, scale, and the store into the
  \<^verbatim>\<open>Int16Array\<close>, which converts with \<^verbatim>\<open>ToInt16\<close>.
\<close>

definition floatTo16BitPCM :: "real \<Rightarrow> int" where
  "floatTo16BitPCM x =
     (let sample = max (- 1) (min 1 x)
      in ToInt16 (if sample < 0 then sample * 0x8000 else sample * 0x7FFF))"

text \<open>\<^verbatim>\<open>writeString\<close>: one \<^verbatim>\<open>setUint8\<close> per character code.\<close>

fun writeString :: "byte list \<Rightarrow> nat \<Rightarrow> string \<Rightarrow> byte list option" where
  "writeString view offset [] = Some view"
| "writeString view offset (c # cs) =
     do { view' \<leftarrow> setUint8 view offset (real (of_char c));
          writeString view' (offset + 1) cs }"

text \<open>The loop that writes the PCM samples, two bytes each.\<close>

fun writeSamples :: "byte list \<Rightarrow> nat \<Rightarrow> int list \<Rightarrow> byte list option" where
  "writeSamples view offset [] = Some view"
| "writeSamples view offset (s # ss) =
     do { view' \<leftarrow> setInt16 view offset (real_of_int s) True;
          writeSamples view' (offset + 2) ss }"

definition audioBufferToWav :: "AudioBuffer \<Rightarrow> Blob option" where
  "audioBufferToWav audioBuffer =
     (let numChannels = 1 :: real;
          rate = sampleRate audioBuffer;
          format = 1 :: real;
          bitDepth = 16 :: real;
          samples = map floatTo16BitPCM (channelData audioBuffer);
          buffer = replicate (44 + length samples * 2) (0 :: byte)
      in do {
        view \<leftarrow> writeString buffer 0 ''RIFF'';
        view \<leftarrow> setUint32 view 4 (36 + real (length samples) * 2) True;
        view \<leftarrow> writeString view 8 ''WAVE'';
        view \<leftarrow> writeString view 12 ''fmt '';
        view \<leftarrow> setUint32 view 16 16 True;
        view \<leftarrow> setUint16 view 20 format True;
        view \<leftarrow> setUint16 view 22 numChannels True;
        view \<leftarrow> setUint32 view 24 rate True;
        view \<leftarrow> setUint32 view 28 (rate * numChannels * bitDepth / 8) True;
        view \<leftarrow> setUint16 view 32 (numChannels * bitDepth / 8) True;
        view \<leftarrow> setUint16 view 34 bitDepth True;
        view \<leftarrow> writeString view 36 ''data'';
        view \<leftarrow> setUint32 view 40 (real (length samples) * 2) True;
        view \<leftarrow> writeSamples view 44 samples;
        Some \<lparr>blob_data = view, blob_type = ''audio/wav''\<rparr>
      })"


section \<open>A WAV reader\<close>

text \<open>
  The reader of the canonical 44-byte RIFF/WAVE layout, against which the encoder's
  output is checked: tags are four ASCII characters, sizes and rates are unsigned
  little-endian, the payload is signed little-endian 16-bit words.
\<close>

fun le_value :: "byte list \<Rightarrow> nat" where
  "le_value [] = 0"
| "le_value (b # bs) = unat b + 256 * le_value bs"

definition read_le :: "nat \<Rightarrow> byte list \<Rightarrow> nat \<Rightarrow> nat option" where
  "read_le k bytes off =
     (if off + k \<le> length bytes then Some (le_value (take k (drop off bytes))) else None)"

definition read_tag :: "byte list \<Rightarrow> nat \<Rightarrow> string option" where
  "read_tag bytes off =
     (if off + 4 \<le> length bytes
      then Some (map (\<lambda>b. char_of (unat b)) (take 4 (drop off bytes))) else None)"

record WavHeader =
  riffTag :: string
  chunkSize :: nat
  waveTag :: string
  fmtTag :: string
  subchunk1Size :: nat
  audioFormat :: nat
  channels :: nat
  samplesPerSec :: nat
  byteRate :: nat
  blockAlign :: nat
  bitsPerSample :: nat
  dataTag :: string
  dataSize :: nat

definition parse_wav_header :: "byte list \<Rightarrow> WavHeader option" where
  "parse_wav_header bytes =
     do {
       t0 \<leftarrow> read_tag bytes 0;
       n4 \<leftarrow> read_le 4 bytes 4;
       t8 \<leftarrow> read_tag bytes 8;
       t12 \<leftarrow> read_tag bytes 12;
       n16 \<leftarrow> read_le 4 bytes 16;
       n20 \<leftarrow> read_le 2 bytes 20;
       n22 \<leftarrow> read_le 2 bytes 22;
       n24 \<leftarrow> read_le 4 bytes 24;
       n28 \<leftarrow> read_le 4 bytes 28;
       n32 \<leftarrow> read_le 2 bytes 32;
       n34 \<leftarrow> read_le 2 bytes 34;
       t36 \<leftarrow> read_tag bytes 36;
       n40 \<leftarrow> read_le 4 bytes 40;
       Some \<lparr>riffTag = t0, chunkSize = n4, waveTag = t8, fmtTag = t12,
             subchunk1Size = n16, audioFormat = n20, channels = n22,
             samplesPerSec = n24, byteRate = n28, blockAlign = n32,
             bitsPerSample = n34, dataTag = t36, dataSize = n40\<rparr>
     }"

text \<open>The payload: every pair of bytes after the header, read as a signed 16-bit word.\<close>

fun pcm16_le :: "byte list \<Rightarrow> int list" where
  "pcm16_le (lo # hi # rest) =
     (let u = int (unat lo) + 256 * int (unat hi)
      in (if u \<ge> 32768 then u - 65536 else u) # pcm16_le rest)"
| "pcm16_le _ = []"

definition parse_wav_samples :: "byte list \<Rightarrow> int list" where
  "parse_wav_samples bytes = pcm16_le (drop 44 bytes)"

text \<open>De-quantisation by the inverse of the encoder's scaling.\<close>

definition dequantize :: "int \<Rightarrow> real" where
  "dequantize q = (if q < 0 then real_of_int q / 32768 else real_of_int q / 32767)"

text \<open>
  A reader of mono 16-bit PCM files in the canonical layout. It reads the header and
  refuses a file whose tags, format fields or sizes are not those of such a file; the
  payload is the \<open>dataSize\<close> bytes after the header, which must be present.
\<close>

definition decode_wav :: "byte list \<Rightarrow> real list option" where
  "decode_wav bytes =
     do {
       h \<leftarrow> parse_wav_header bytes;
       if riffTag h = ''RIFF'' \<and> waveTag h = ''WAVE'' \<and> fmtTag h = ''fmt ''
          \<and> dataTag h = ''data'' \<and> chunkSize h = 36 + dataSize h \<and> subchunk1Size h = 16
          \<and> audioFormat h = 1 \<and> channels h = 1 \<and> bitsPerSample h = 16 \<and> blockAlign h = 2
          \<and> 44 + dataSize h \<le> length bytes
       then Some (map dequantize (pcm16_le (take (dataSize h) (drop 44 bytes))))
       else None
     }"

text \<open>Encoding, then reading the header or the payload of the result.\<close>

definition encoded_samples :: "AudioBuffer \<Rightarrow> int list option" where
  "encoded_samples audioBuffer =
     map_option (\<lambda>wav. parse_wav_samples (blob_data wav)) (audioBufferToWav audioBuffer)"

definition decoded_samples :: "AudioBuffer \<Rightarrow> real list option" where
  "decoded_samples audioBuffer =
     do { wav \<leftarrow> audioBufferToWav audioBuffer; decode_wav (blob_data wav) }"


definition encoded_header :: "AudioBuffer \<Rightarrow> WavHeader option" where
  "encoded_header audioBuffer =
     do { wav \<leftarrow> audioBufferToWav audioBuffer; parse_wav_header (blob_data wav) }"

definition encoded_bytes :: "AudioBuffer \<Rightarrow> byte list option" where
  "encoded_bytes audioBuffer = map_option blob_data (audioBufferToWav audioBuffer)"

text \<open>
  The quantiser as the design document words it: clamp to \<open>[-1, 1]\<close>; scale negative
  values by 32768 and non-negative values by 32767; round toward zero.
\<close>

definition clamp_unit :: "real \<Rightarrow> real" where
  "clamp_unit s = (if s < - 1 then - 1 else if 1 < s then 1 else s)"

definition round_toward_zero :: "real \<Rightarrow> int" where
  "round_toward_zero x = (if 0 \<le> x then \<lfloor>x\<rfloor> else - \<lfloor>- x\<rfloor>)"

definition quantize_spec :: "real \<Rightarrow> int" where
  "quantize_spec s =
     (let c = clamp_unit s
      in if c < 0 then round_toward_zero (c * 32768) else round_toward_zero (c * 32767))"


section \<open>The chat component: \<^verbatim>\<open>ChatInterface\<close>\<close>

text \<open>
  A JavaScript string is a sequence of 16-bit code units. \<open>js\<close> reads a string literal
  of the source.
\<close>

type_synonym code_unit = "16 word"
type_synonym jsstring = "code_unit list"

definition js :: "string \<Rightarrow> jsstring" where
  "js s = map (\<lambda>c. of_nat (of_char c)) s"

text \<open>
  The code units \<^verbatim>\<open>String.prototype.trim\<close> strips: the WhiteSpace and LineTerminator
  productions of ECMAScript (tab, VT, FF, space, NBSP, the space separators, BOM; LF, CR,
  LS, PS).
\<close>

definition isWhiteSpace :: "code_unit \<Rightarrow> bool" where
  "isWhiteSpace c =
     (c \<in> {0x9, 0xA, 0xB, 0xC, 0xD, 0x20, 0xA0, 0x1680, 0x2028, 0x2029, 0x202F, 0x205F,
            0x3000, 0xFEFF}
      \<or> (0x2000 \<le> c \<and> c \<le> 0x200A))"

definition trim :: "jsstring \<Rightarrow> jsstring" where
  "trim s = rev (dropWhile isWhiteSpace (rev (dropWhile isWhiteSpace s)))"

text \<open>
  The recorder remembers its container type and the stream it records, which the
  handlers installed by \<^verbatim>\<open>startRecording\<close> close over.
\<close>

record MediaRecorder =
  mimeType :: string
  stream :: nat

text \<open>
  The component's state (\<^verbatim>\<open>useState\<close>, \<^verbatim>\<open>useRef\<close> and the \<^verbatim>\<open>isLoading\<close>
  prop), followed by what the component does to the world around it: the media streams
  that \<^verbatim>\<open>getUserMedia\<close> has handed out (one flag per track: is it live), the
  recorders whose \<^verbatim>\<open>stop()\<close> was called and whose stop event is still to be
  delivered, the blobs built by \<^verbatim>\<open>new Blob(audioChunksRef.current, ...)\<close>, the
  messages passed to \<^verbatim>\<open>onSendMessage\<close>, and the alerts shown.
\<close>

record ChatInterface =
  inputText :: jsstring
  isRecording :: bool
  isTranscribing :: bool
  isLoading :: bool
  mediaRecorderRef :: "MediaRecorder option"
  audioChunksRef :: "byte list list"
  streams :: "bool list list"
  pendingStops :: "MediaRecorder list"
  blobs :: "Blob list"
  sent :: "jsstring list"
  alerts :: "jsstring list"

text \<open>
  The result of \<^verbatim>\<open>transcribeAudio\<close> (imported from \<^verbatim>\<open>../utils/api\<close>): the call
  throws, or returns an object with \<^verbatim>\<open>success\<close>, \<^verbatim>\<open>text\<close> and \<^verbatim>\<open>error\<close>.
\<close>

record TranscriptionResult =
  success :: bool
  result_text :: jsstring
  result_error :: jsstring

datatype TranscribeOutcome = Threw | Returned TranscriptionResult

text \<open>
  What the browser and the transcription service answer. \<^verbatim>\<open>getUserMedia\<close> rejects
  (\<open>None\<close>) or grants a stream with some number of tracks; \<^verbatim>\<open>isTypeSupported\<close> is
  membership in the set of supported recording types; the \<^verbatim>\<open>AudioContext\<close>
  constructor may throw; \<^verbatim>\<open>decodeAudioData\<close> rejects (\<open>None\<close>) or yields the
  samples of channel 0, at the sample rate of the context that decodes.
\<close>

record Browser =
  getUserMedia :: "nat option"
  supportedTypes :: "string set"
  audioContextAvailable :: bool
  decodeAudioData :: "real \<Rightarrow> byte list \<Rightarrow> real list option"
  transcribeAudio :: "Blob \<Rightarrow> TranscribeOutcome"

definition isTypeSupported :: "Browser \<Rightarrow> string \<Rightarrow> bool" where
  "isTypeSupported browser t = (t \<in> supportedTypes browser)"

definition alert :: "jsstring \<Rightarrow> ChatInterface \<Rightarrow> ChatInterface" where
  "alert message st = st\<lparr>alerts := alerts st @ [message]\<rparr>"

definition handleSendText :: "ChatInterface \<Rightarrow> ChatInterface" where
  "handleSendText st =
     (if trim (inputText st) \<noteq> [] \<and> \<not> isLoading st
      then st\<lparr>sent := sent st @ [trim (inputText st)], inputText := []\<rparr>
      else st)"

text \<open>
  The choice of the recording type at the head of \<^verbatim>\<open>startRecording\<close>: the default
  is overwritten when a better type is supported.
\<close>

definition recorderOptions :: "string set \<Rightarrow> string" where
  "recorderOptions supported =
     (let options = ''audio/webm''
      in if ''audio/wav'' \<in> supported then ''audio/wav''
         else if ''audio/webm;codecs=opus'' \<in> supported then ''audio/webm;codecs=opus''
         else options)"

text \<open>
  \<^verbatim>\<open>startRecording\<close>. A rejected \<^verbatim>\<open>getUserMedia\<close> and a \<^verbatim>\<open>MediaRecorder\<close>
  constructor that throws (it does for a type that is not supported) both end in the
  \<^verbatim>\<open>catch\<close> branch.
\<close>

definition startRecording :: "Browser \<Rightarrow> ChatInterface \<Rightarrow> ChatInterface" where
  "startRecording browser st =
     (case getUserMedia browser of
        None \<Rightarrow> alert (js ''Could not access microphone. Please check permissions.'') st
      | Some tracks \<Rightarrow>
          let st1 = st\<lparr>streams := streams st @ [replicate tracks True]\<rparr>;
              options = recorderOptions (supportedTypes browser)
          in if isTypeSupported browser options
             then let mediaRecorder = \<lparr>mimeType = options, stream = length (streams st)\<rparr>
                  in st1\<lparr>mediaRecorderRef := Some mediaRecorder,
                         audioChunksRef := [],
                         isRecording := True\<rparr>
             else alert (js ''Could not access microphone. Please check permissions.'') st1)"

text \<open>\<^verbatim>\<open>mediaRecorder.ondataavailable\<close>: an empty chunk is not kept.\<close>

definition ondataavailable :: "byte list \<Rightarrow> ChatInterface \<Rightarrow> ChatInterface" where
  "ondataavailable data st =
     (if length data > 0 then st\<lparr>audioChunksRef := audioChunksRef st @ [data]\<rparr> else st)"

definition stopRecording :: "ChatInterface \<Rightarrow> ChatInterface" where
  "stopRecording st =
     (case mediaRecorderRef st of
        Some mediaRecorder \<Rightarrow>
          if isRecording st
          then st\<lparr>pendingStops := pendingStops st @ [mediaRecorder], isRecording := False\<rparr>
          else st
      | None \<Rightarrow> st)"

definition handleAudioTranscription :: "Browser \<Rightarrow> Blob \<Rightarrow> ChatInterface \<Rightarrow> ChatInterface" where
  "handleAudioTranscription browser audioBlob st =
     (let st1 = st\<lparr>isTranscribing := True\<rparr>;
          st2 = (case transcribeAudio browser audioBlob of
                   Returned result \<Rightarrow>
                     if success result then st1\<lparr>inputText := result_text result\<rparr>
                     else alert (js ''Could not transcribe audio: '' @ result_error result) st1
                 | Threw \<Rightarrow> alert (js ''Transcription failed. Please try again.'') st1)
      in st2\<lparr>isTranscribing := False\<rparr>)"

text \<open>\<^verbatim>\<open>stream.getTracks().forEach(track => track.stop())\<close>\<close>

definition stopTracks :: "nat \<Rightarrow> ChatInterface \<Rightarrow> ChatInterface" where
  "stopTracks s st =
     (if s < length (streams st)
      then st\<lparr>streams := (streams st)[s := map (\<lambda>live. False) (streams st ! s)]\<rparr>
      else st)"

text \<open>
  \<^verbatim>\<open>convertToWavAndTranscribe\<close>. The \<^verbatim>\<open>try\<close> block changes the component only in
  its last call, so when an earlier step throws the \<^verbatim>\<open>catch\<close> branch starts from
  the state at entry. The audio context is created with \<^verbatim>\<open>sampleRate: 16000\<close>.
\<close>

definition convertToWavAndTranscribe ::
    "Browser \<Rightarrow> Blob \<Rightarrow> nat \<Rightarrow> ChatInterface \<Rightarrow> ChatInterface" where
  "convertToWavAndTranscribe browser audioBlob s st =
     (let contextRate = 16000;
          tried = do {
            _ \<leftarrow> (if audioContextAvailable browser then Some () else None);
            arrayBuffer \<leftarrow> Some (blob_data audioBlob);
            channel0 \<leftarrow> decodeAudioData browser contextRate arrayBuffer;
            wavBlob \<leftarrow> audioBufferToWav \<lparr>sampleRate = contextRate, channelData = channel0\<rparr>;
            Some (handleAudioTranscription browser wavBlob st)
          }
      in case tried of
           Some st' \<Rightarrow> stopTracks s st'
         | None \<Rightarrow> stopTracks s (alert (js ''Error processing audio. Please try again.'') st))"

text \<open>\<^verbatim>\<open>mediaRecorder.onstop\<close>, for the recorder whose stop event is delivered.\<close>

definition onstop :: "Browser \<Rightarrow> MediaRecorder \<Rightarrow> ChatInterface \<Rightarrow> ChatInterface" where
  "onstop browser mediaRecorder st =
     (let audioBlob = \<lparr>blob_data = concat (audioChunksRef st), blob_type = mimeType mediaRecorder\<rparr>
      in convertToWavAndTranscribe browser audioBlob (stream mediaRecorder)
           (st\<lparr>blobs := blobs st @ [audioBlob]\<rparr>))"

text \<open>The event loop delivers the oldest pending stop event to its recorder's handler.\<close>

definition deliverStop :: "Browser \<Rightarrow> ChatInterface \<Rightarrow> ChatInterface" where
  "deliverStop browser st =
     (case pendingStops st of
        [] \<Rightarrow> st
      | mediaRecorder # rest \<Rightarrow> onstop browser mediaRecorder (st\<lparr>pendingStops := rest\<rparr>))"

text \<open>
  One capture cycle: start, the chunks that arrive while recording, stop, the chunks
  that the recorder flushes after \<^verbatim>\<open>stop()\<close>, and the stop event.
\<close>

definition captureCycle ::
    "Browser \<Rightarrow> byte list list \<Rightarrow> byte list list \<Rightarrow> ChatInterface \<Rightarrow> ChatInterface" where
  "captureCycle browser chunks flushed st =
     deliverStop browser
       (fold ondataavailable flushed
         (stopRecording
           (fold ondataavailable chunks
             (startRecording browser st))))"


section \<open>The second copy of the recorder handlers\<close>







section \<open>A browser and a component state to run the handlers on\<close>

definition demoState :: ChatInterface where
  "demoState = \<lparr>inputText = js ''draft'', isRecording = False, isTranscribing = False,
      isLoading = False, mediaRecorderRef = None, audioChunksRef = [[9, 9]], streams = [],
      pendingStops = [], blobs = [], sent = [], alerts = []\<rparr>"

definition demoBrowser :: Browser where
  "demoBrowser = \<lparr>getUserMedia = Some 1,
      supportedTypes = {''audio/webm'', ''audio/webm;codecs=opus''},
      audioContextAvailable = True,
      decodeAudioData = (\<lambda>rate bytes. Some [1 / 2, - 1]),
      transcribeAudio = (\<lambda>wav. Returned \<lparr>success = True, result_text = js ''hi'', result_error = []\<rparr>)\<rparr>"


section \<open>The bytes the encoder produces\<close>

text \<open>The two bytes \<^verbatim>\<open>setInt16\<close> stores for an element of the \<^verbatim>\<open>Int16Array\<close>.\<close>

definition sample_bytes :: "int \<Rightarrow> byte list" where
  "sample_bytes s = le_bytes 2 (nat (ToInt16 (real_of_int s) mod 2 ^ 16))"

text \<open>The file in closed form; \<open>audioBufferToWav_image\<close> proves that the encoder writes it.\<close>

definition wav_image :: "AudioBuffer \<Rightarrow> byte list" where
  "wav_image ab =
     (let samples = map floatTo16BitPCM (channelData ab); n = real (length samples) in
      [82, 73, 70, 70] @ le_bytes 4 (ToUint32 (36 + n * 2)) @ [87, 65, 86, 69]
      @ [102, 109, 116, 32] @ [16, 0, 0, 0] @ [1, 0] @ [1, 0]
      @ le_bytes 4 (ToUint32 (sampleRate ab)) @ le_bytes 4 (ToUint32 (sampleRate ab * 1 * 16 / 8))
      @ le_bytes 2 (ToUint16 (1 * 16 / 8)) @ [16, 0] @ [100, 97, 116, 97]
      @ le_bytes 4 (ToUint32 (n * 2)) @ concat (map sample_bytes samples))"

section \<open>Properties of the encoder\<close>

lemma length_le_bytes [simp]: "length (le_bytes k v) = k"
  by (induction k arbitrary: v) auto

lemma length_raw_bytes [simp]: "length (raw_bytes k v e) = k"
  by (simp add: raw_bytes_def)

lemma setViewValue_zeros:
  "length a = off \<Longrightarrow> length raw \<le> m \<Longrightarrow>
   setViewValue (a @ replicate m 0 @ c) off raw = Some ((a @ raw) @ replicate (m - length raw) 0 @ c)"
  by (simp add: setViewValue_def)

lemma le_value_le_bytes: "le_value (le_bytes k v) = v mod 256 ^ k"
proof (induction k arbitrary: v)
  case 0 show ?case by simp
next
  case (Suc k)
  have "v mod 256 + 256 * (v div 256 mod 256 ^ k) = v mod (256 * 256 ^ k)"
    by (simp add: mod_mult2_eq)
  with Suc show ?case by (simp add: unat_of_nat)
qed

lemma byte_of_nat_mod: "(of_nat (n mod 256) :: byte) = of_nat n"
  by (simp add: word_of_nat_eq_iff take_bit_eq_mod)

lemma js_trunc_of_nat [simp]: "js_trunc (real n) = int n"
  by (simp add: js_trunc_def)

lemma js_trunc_of_int [simp]: "js_trunc (real_of_int n) = n"
  by (simp add: js_trunc_def)

lemma le_bytes_1: "le_bytes 1 v = [of_nat v]"
  by (simp add: byte_of_nat_mod)

lemma le_bytes_2: "le_bytes 2 v = [of_nat v, of_nat (v div 256)]"
  by (simp add: numeral_2_eq_2 byte_of_nat_mod)

lemma le_bytes_4:
  "le_bytes 4 v = [of_nat v, of_nat (v div 256), of_nat (v div 65536), of_nat (v div 16777216)]"
proof -
  have "(4::nat) = Suc (Suc (Suc (Suc 0)))" by simp
  then have "le_bytes 4 v = le_bytes (Suc (Suc (Suc (Suc 0)))) v" by (rule arg_cong)
  also have "\<dots> = [of_nat v, of_nat (v div 256), of_nat (v div 256 div 256), of_nat (v div 256 div 256 div 256)]"
    by (simp add: byte_of_nat_mod)
  finally show ?thesis by (simp add: div_mult2_eq [symmetric])
qed

lemma setUint8_char:
  "setUint8 view off (real (of_char ch)) = setViewValue view off [of_nat (of_char ch)]"
  by (simp add: setUint8_def ToUint8_def raw_bytes_def le_bytes_1 nat_mod_distrib byte_of_nat_mod)

lemma writeString_zeros:
  "length a = off \<Longrightarrow> length s \<le> m \<Longrightarrow>
   writeString (a @ replicate m 0 @ c) off s
     = Some ((a @ map (\<lambda>ch. of_nat (of_char ch)) s) @ replicate (m - length s) 0 @ c)"
proof (induction s arbitrary: a off m)
  case Nil then show ?case by simp
next
  case (Cons ch s)
  from Cons.prems have m: "1 \<le> m" "length s \<le> m - 1" by auto
  have "writeString (a @ replicate m 0 @ c) off (ch # s)
      = writeString ((a @ [of_nat (of_char ch)]) @ replicate (m - 1) 0 @ c) (off + 1) s"
    using Cons.prems(1) m(1) by (simp add: setUint8_char setViewValue_zeros)
  also have "\<dots> = Some (((a @ [of_nat (of_char ch)]) @ map (\<lambda>ch. of_nat (of_char ch)) s)
                       @ replicate (m - 1 - length s) 0 @ c)"
    by (rule Cons.IH) (use Cons.prems m in auto)
  finally show ?case by simp
qed

lemma writeSamples_zeros:
  "length a = off \<Longrightarrow>
   writeSamples (a @ replicate (length ss * 2) 0) off ss = Some (a @ concat (map sample_bytes ss))"
proof (induction ss arbitrary: a off)
  case Nil then show ?case by simp
next
  case (Cons s ss)
  have "writeSamples (a @ replicate (length (s # ss) * 2) 0) off (s # ss)
      = writeSamples ((a @ sample_bytes s) @ replicate (length ss * 2) 0) (off + 2) ss"
    using Cons.prems setViewValue_zeros [of a off "sample_bytes s" "length (s # ss) * 2" "[]"]
    by (simp add: setInt16_def raw_bytes_def sample_bytes_def)
  also have "\<dots> = Some ((a @ sample_bytes s) @ concat (map sample_bytes ss))"
    by (rule Cons.IH) (use Cons.prems in \<open>simp add: sample_bytes_def\<close>)
  finally show ?case by simp
qed

lemma replicate_44: "replicate 44 x = [x,x,x,x, x,x,x,x, x,x,x,x, x,x,x,x, x,x,x,x, x,x,x,x,
   x,x,x,x, x,x,x,x, x,x,x,x, x,x,x,x, x,x,x,x]"
  by (simp add: eval_nat_numeral)

lemma header_writes:
  "do {
        view \<leftarrow> writeString (replicate 44 0 @ R) 0 ''RIFF'';
        view \<leftarrow> setUint32 view 4 cs True;
        view \<leftarrow> writeString view 8 ''WAVE'';
        view \<leftarrow> writeString view 12 ''fmt '';
        view \<leftarrow> setUint32 view 16 16 True;
        view \<leftarrow> setUint16 view 20 1 True;
        view \<leftarrow> setUint16 view 22 1 True;
        view \<leftarrow> setUint32 view 24 rate True;
        view \<leftarrow> setUint32 view 28 br True;
        view \<leftarrow> setUint16 view 32 ba True;
        view \<leftarrow> setUint16 view 34 16 True;
        view \<leftarrow> writeString view 36 ''data'';
        view \<leftarrow> setUint32 view 40 ds True;
        k view }
   = k ([82, 73, 70, 70] @ le_bytes 4 (ToUint32 cs) @ [87, 65, 86, 69] @ [102, 109, 116, 32]
       @ [16, 0, 0, 0] @ [1, 0] @ [1, 0] @ le_bytes 4 (ToUint32 rate) @ le_bytes 4 (ToUint32 br)
       @ le_bytes 2 (ToUint16 ba) @ [16, 0] @ [100, 97, 116, 97] @ le_bytes 4 (ToUint32 ds) @ R)"
  apply (simp add: replicate_44 setUint8_def setUint16_def setUint32_def setViewValue_def raw_bytes_def
    le_bytes_1 le_bytes_2 le_bytes_4 ToUint8_def ToUint16_def)
  apply (simp add: ToUint32_def js_trunc_def)
  done

lemma audioBufferToWav_image:
  "audioBufferToWav ab = Some \<lparr>blob_data = wav_image ab, blob_type = ''audio/wav''\<rparr>"
proof -
  let ?ss = "map floatTo16BitPCM (channelData ab)"
  let ?H = "[82, 73, 70, 70] @ le_bytes 4 (ToUint32 (36 + real (length ?ss) * 2)) @ [87, 65, 86, 69]
      @ [102, 109, 116, 32] @ [16, 0, 0, 0] @ [1, 0] @ [1, 0]
      @ le_bytes 4 (ToUint32 (sampleRate ab)) @ le_bytes 4 (ToUint32 (sampleRate ab * 1 * 16 / 8))
      @ le_bytes 2 (ToUint16 (1 * 16 / 8)) @ [16, 0] @ [100, 97, 116, 97]
      @ le_bytes 4 (ToUint32 (real (length ?ss) * 2)) :: byte list"
  have len: "length ?H = 44" by simp
  have w: "writeSamples (?H @ replicate (length ?ss * 2) 0) 44 ?ss
             = Some (?H @ concat (map sample_bytes ?ss))"
    using len by (rule writeSamples_zeros)
  have "audioBufferToWav ab
      = do { view \<leftarrow> writeSamples (?H @ replicate (length ?ss * 2) 0) 44 ?ss;
             Some \<lparr>blob_data = view, blob_type = ''audio/wav''\<rparr> }"
    unfolding audioBufferToWav_def Let_def replicate_add
    by (subst header_writes) simp
  also have "\<dots> = Some \<lparr>blob_data = wav_image ab, blob_type = ''audio/wav''\<rparr>"
    unfolding w by (simp add: wav_image_def Let_def)
  finally show ?thesis .
qed

lemma length_sample_bytes [simp]: "length (sample_bytes s) = 2"
  by (simp add: sample_bytes_def)

lemma length_concat_pairs:
  "(\<And>x. length (g x) = 2) \<Longrightarrow> length (concat (map g xs)) = 2 * length xs"
  by (induction xs) auto

lemma length_wav_image: "length (wav_image ab) = 44 + 2 * length (channelData ab)"
  by (simp add: wav_image_def Let_def length_concat_pairs)

lemma le_value_2: "le_value [of_nat v, of_nat (v div 256)] = v mod 2 ^ 16"
  using le_value_le_bytes [of 2 v] by (simp add: le_bytes_2)

lemma le_value_4:
  "le_value [of_nat v, of_nat (v div 256), of_nat (v div 65536), of_nat (v div 16777216)] = v mod 2 ^ 32"
  using le_value_le_bytes [of 4 v] by (simp add: le_bytes_4)

lemma ToUint32_lt: "ToUint32 x < 2 ^ 32"
  by (simp add: ToUint32_def nat_less_iff)

lemma ToUint32_mod: "ToUint32 x mod 4294967296 = ToUint32 x"
  using ToUint32_lt [of x] by simp

lemma ToUint16_lt: "ToUint16 x < 2 ^ 16"
  by (simp add: ToUint16_def nat_less_iff)

lemma parse_wav_header_image:
  "parse_wav_header (wav_image ab) =
     Some \<lparr>riffTag = ''RIFF'', chunkSize = ToUint32 (36 + real (length (channelData ab)) * 2),
           waveTag = ''WAVE'', fmtTag = ''fmt '', subchunk1Size = 16, audioFormat = 1, channels = 1,
           samplesPerSec = ToUint32 (sampleRate ab),
           byteRate = ToUint32 (sampleRate ab * 1 * 16 / 8),
           blockAlign = 2, bitsPerSample = 16, dataTag = ''data'',
           dataSize = ToUint32 (real (length (channelData ab)) * 2)\<rparr>"
  apply (simp add: parse_wav_header_def read_le_def read_tag_def length_wav_image)
  apply (simp add: wav_image_def Let_def le_bytes_4 le_bytes_2 le_value_4 le_value_2 ToUint32_mod
      char_of_eq_iff del: le_value.simps)
  apply (simp add: ToUint16_def js_trunc_def)
  done

lemma mod_65536_neg: "- 32768 \<le> (s::int) \<Longrightarrow> s < 0 \<Longrightarrow> s mod 65536 = s + 65536"
proof -
  assume a: "- 32768 \<le> s" "s < 0"
  then have "(s + 65536) mod 65536 = s + 65536" by (intro mod_pos_pos_trivial) auto
  then show ?thesis by simp
qed

lemma ToInt16_in_range:
  "- 32768 \<le> js_trunc x \<Longrightarrow> js_trunc x \<le> 32767 \<Longrightarrow> ToInt16 x = js_trunc x"
proof -
  assume a: "- 32768 \<le> js_trunc x" "js_trunc x \<le> 32767"
  show ?thesis
  proof (cases "js_trunc x < 0")
    case True
    with a have "js_trunc x mod 65536 = js_trunc x + 65536"
      by (simp add: mod_65536_neg)
    with a True show ?thesis by (simp add: ToInt16_def)
  next
    case False
    with a have "js_trunc x mod 65536 = js_trunc x" by simp
    with a False show ?thesis by (simp add: ToInt16_def)
  qed
qed

lemma ToInt16_range: "- 32768 \<le> ToInt16 x \<and> ToInt16 x \<le> 32767"
proof -
  have "0 \<le> js_trunc x mod 65536" "js_trunc x mod 65536 < 65536" by simp_all
  then show ?thesis by (auto simp: ToInt16_def Let_def)
qed

lemma js_trunc_round: "js_trunc x = round_toward_zero x"
  by (auto simp: js_trunc_def round_toward_zero_def ceiling_def)

lemma clamp_unit_max_min: "max (- 1) (min 1 x) = clamp_unit x"
  by (auto simp: clamp_unit_def)

lemma clamp_unit_range: "- 1 \<le> clamp_unit x \<and> clamp_unit x \<le> 1"
  by (auto simp: clamp_unit_def)

lemma scaled_range:
  "- 32768 \<le> js_trunc (if clamp_unit x < 0 then clamp_unit x * 32768 else clamp_unit x * 32767)
   \<and> js_trunc (if clamp_unit x < 0 then clamp_unit x * 32768 else clamp_unit x * 32767) \<le> 32767"
proof -
  have r: "- 1 \<le> clamp_unit x" "clamp_unit x \<le> 1" using clamp_unit_range by auto
  show ?thesis
  proof (cases "clamp_unit x < 0")
    case True
    then have "clamp_unit x * 32768 < 0" "- 32768 \<le> clamp_unit x * 32768" using r by auto
    then have "- 32768 \<le> \<lceil>clamp_unit x * 32768\<rceil>" "\<lceil>clamp_unit x * 32768\<rceil> \<le> 0"
      by (simp_all add: le_ceiling_iff ceiling_le_iff)
    with True show ?thesis by (simp add: js_trunc_def mult_less_0_iff)
  next
    case False
    then have "0 \<le> clamp_unit x * 32767" "clamp_unit x * 32767 \<le> 32767" using r by auto
    then have "0 \<le> \<lfloor>clamp_unit x * 32767\<rfloor>" "\<lfloor>clamp_unit x * 32767\<rfloor> \<le> 32767"
      by (simp_all add: le_floor_iff floor_le_iff)
    with False show ?thesis by (simp add: js_trunc_def not_less mult_less_0_iff)
  qed
qed

lemma floatTo16BitPCM_spec: "floatTo16BitPCM x = quantize_spec x"
proof -
  let ?v = "if clamp_unit x < 0 then clamp_unit x * 32768 else clamp_unit x * 32767"
  have "floatTo16BitPCM x = ToInt16 ?v"
    by (simp add: floatTo16BitPCM_def Let_def clamp_unit_max_min)
  also have "\<dots> = js_trunc ?v"
    using scaled_range [of x] by (intro ToInt16_in_range) auto
  also have "\<dots> = quantize_spec x"
    by (simp add: quantize_spec_def Let_def js_trunc_round)
  finally show ?thesis .
qed

lemma floatTo16BitPCM_range: "- 32768 \<le> floatTo16BitPCM x \<and> floatTo16BitPCM x \<le> 32767"
  by (simp add: floatTo16BitPCM_def Let_def ToInt16_range)

lemma pcm16_le_sample_bytes:
  assumes "- 32768 \<le> s" "s \<le> 32767"
  shows "pcm16_le (sample_bytes s @ rest) = s # pcm16_le rest"
proof -
  have t: "ToInt16 (real_of_int s) = s" using assms by (simp add: ToInt16_in_range)
  let ?u = "nat (s mod 2 ^ 16)"
  have u: "?u < 65536" by (simp add: nat_less_iff)
  have "int (unat (of_nat ?u :: byte)) + 256 * int (unat (of_nat (?u div 256) :: byte))
        = int (le_value (le_bytes 2 ?u))"
    by (simp add: le_bytes_2)
  also have "\<dots> = int (?u mod 2 ^ 16)" by (simp only: le_value_le_bytes) simp
  also have "\<dots> = s mod 65536" using u by simp
  finally have v: "int (unat (of_nat ?u :: byte)) + 256 * int (unat (of_nat (?u div 256) :: byte))
        = s mod 65536" .
  have w: "(if s mod 65536 \<ge> 32768 then s mod 65536 - 65536 else s mod 65536) = s"
  proof (cases "s < 0")
    case True
    with assms have "s mod 65536 = s + 65536" by (simp add: mod_65536_neg)
    with assms True show ?thesis by simp
  next
    case False
    with assms have "s mod 65536 = s" by simp
    with assms show ?thesis by simp
  qed
  show ?thesis
    unfolding sample_bytes_def t le_bytes_2
    using v w by (simp add: Let_def)
qed

lemma pcm16_le_concat:
  "(\<And>s. s \<in> set ss \<Longrightarrow> - 32768 \<le> s \<and> s \<le> 32767) \<Longrightarrow>
   pcm16_le (concat (map sample_bytes ss)) = ss"
  by (induction ss) (simp_all add: pcm16_le_sample_bytes)

lemma parse_wav_samples_image:
  "parse_wav_samples (wav_image ab) = map floatTo16BitPCM (channelData ab)"
proof -
  have "drop 44 (wav_image ab) = concat (map sample_bytes (map floatTo16BitPCM (channelData ab)))"
    by (simp add: wav_image_def Let_def)
  moreover have "pcm16_le (concat (map sample_bytes (map floatTo16BitPCM (channelData ab))))
      = map floatTo16BitPCM (channelData ab)"
    by (rule pcm16_le_concat) (use floatTo16BitPCM_range in auto)
  ultimately show ?thesis by (simp add: parse_wav_samples_def)
qed

lemma dequantize_error:
  assumes "- 1 \<le> s" "s \<le> 1"
  shows "\<bar>dequantize (floatTo16BitPCM s) - s\<bar> < (if s < 0 then 1 / 32768 else 1 / 32767)"
proof -
  have c: "clamp_unit s = s" using assms by (simp add: clamp_unit_def)
  show ?thesis
  proof (cases "s < 0")
    case True
    let ?q = "\<lceil>s * 32768\<rceil>"
    have q: "floatTo16BitPCM s = ?q"
      using True by (simp add: floatTo16BitPCM_spec quantize_spec_def c round_toward_zero_def
          ceiling_def mult_less_0_iff not_le)
    have lo: "s * 32768 \<le> real_of_int ?q" by (rule le_of_int_ceiling)
    have hi: "real_of_int ?q < s * 32768 + 1" by linarith
    have q0: "?q \<le> 0" using True by (simp add: ceiling_le_iff mult_le_0_iff)
    show ?thesis
    proof (cases "?q < 0")
      case True
      then have d: "dequantize ?q = real_of_int ?q / 32768" by (simp add: dequantize_def)
      have "s \<le> real_of_int ?q / 32768" using lo by simp
      moreover have "real_of_int ?q / 32768 < s + 1 / 32768" using hi by simp
      ultimately show ?thesis using \<open>s < 0\<close> unfolding q d by simp
    next
      case False
      with q0 have z: "?q = 0" by linarith
      have "- s < 1 / 32768" using hi unfolding z by simp
      then show ?thesis using \<open>s < 0\<close> unfolding q z by (simp add: dequantize_def)
    qed
  next
    case False
    let ?q = "\<lfloor>s * 32767\<rfloor>"
    have q: "floatTo16BitPCM s = ?q"
      using False by (simp add: floatTo16BitPCM_spec quantize_spec_def c round_toward_zero_def not_less)
    have lo: "real_of_int ?q \<le> s * 32767" by (rule of_int_floor_le)
    have hi: "s * 32767 < real_of_int ?q + 1" by linarith
    have "0 \<le> ?q" using False by (simp add: le_floor_iff)
    then have d: "dequantize ?q = real_of_int ?q / 32767" by (simp add: dequantize_def)
    have "real_of_int ?q / 32767 \<le> s" using lo by simp
    moreover have "s < real_of_int ?q / 32767 + 1 / 32767" using hi by linarith
    ultimately show ?thesis using False unfolding q d by simp
  qed
qed

lemma ToUint32_of_nat: "ToUint32 (real n) = n mod 2 ^ 32"
  by (simp add: ToUint32_def nat_mod_distrib)

lemma floatTo16BitPCM_one: "floatTo16BitPCM 1 = 32767"
  by (simp add: floatTo16BitPCM_def ToInt16_def js_trunc_def)

lemma floatTo16BitPCM_minus_one: "floatTo16BitPCM (- 1) = - 32768"
  by (simp add: floatTo16BitPCM_def ToInt16_def js_trunc_def)

lemma ToUint32_sizes:
  "ToUint32 (36 + real n * 2) = (36 + 2 * n) mod 2 ^ 32"
  "ToUint32 (36 + 2 * real n) = (36 + 2 * n) mod 2 ^ 32"
  "ToUint32 (real n * 2) = (2 * n) mod 2 ^ 32"
  "ToUint32 (2 * real n) = (2 * n) mod 2 ^ 32"
  using ToUint32_of_nat [of "36 + 2 * n"] ToUint32_of_nat [of "2 * n"]
  by (simp_all add: mult.commute)

lemma header_sizes:
  "map_option length (encoded_bytes ab) = Some (44 + 2 * length (channelData ab))
   \<and> map_option dataSize (encoded_header ab) = Some ((2 * length (channelData ab)) mod 2 ^ 32)
   \<and> map_option chunkSize (encoded_header ab) = Some ((36 + 2 * length (channelData ab)) mod 2 ^ 32)"
  unfolding encoded_bytes_def encoded_header_def audioBufferToWav_image
  by (simp add: length_wav_image parse_wav_header_image ToUint32_sizes)

lemma header_format:
  "map_option (\<lambda>h. (riffTag h, waveTag h, fmtTag h, dataTag h)) (encoded_header ab)
     = Some (''RIFF'', ''WAVE'', ''fmt '', ''data'')
   \<and> map_option (\<lambda>h. (audioFormat h, channels h, blockAlign h, bitsPerSample h)) (encoded_header ab)
     = Some (1, 1, 2, 16)
   \<and> map_option samplesPerSec (encoded_header ab) = Some (ToUint32 (sampleRate ab))
   \<and> map_option byteRate (encoded_header ab) = Some (ToUint32 (sampleRate ab * 1 * 16 / 8))"
  unfolding encoded_header_def audioBufferToWav_image
  by (simp add: parse_wav_header_image)

lemma take_payload:
  "take (2 * length (channelData ab)) (drop 44 (wav_image ab))
     = concat (map sample_bytes (map floatTo16BitPCM (channelData ab)))"
proof -
  have "drop 44 (wav_image ab) = concat (map sample_bytes (map floatTo16BitPCM (channelData ab)))"
    by (simp add: wav_image_def Let_def)
  moreover have "length (concat (map sample_bytes (map floatTo16BitPCM (channelData ab))))
      = 2 * length (channelData ab)"
    by (simp add: length_concat_pairs)
  ultimately show ?thesis by simp
qed

lemma decode_wav_image:
  assumes "36 + 2 * length (channelData ab) < 2 ^ 32"
  shows "decode_wav (wav_image ab)
           = Some (map (\<lambda>s. dequantize (floatTo16BitPCM s)) (channelData ab))"
proof -
  from assms have m: "(36 + 2 * length (channelData ab)) mod 2 ^ 32 = 36 + 2 * length (channelData ab)"
    "(2 * length (channelData ab)) mod 2 ^ 32 = 2 * length (channelData ab)"
    by simp_all
  have p: "pcm16_le (concat (map sample_bytes (map floatTo16BitPCM (channelData ab))))
      = map floatTo16BitPCM (channelData ab)"
    by (rule pcm16_le_concat) (use floatTo16BitPCM_range in auto)
  from p have q: "map dequantize
        (pcm16_le (concat (map (sample_bytes \<circ> floatTo16BitPCM) (channelData ab))))
      = map (\<lambda>s. dequantize (floatTo16BitPCM s)) (channelData ab)"
    by simp
  have t: "take (2 * length (channelData ab)) (drop 44 (wav_image ab))
      = concat (map (sample_bytes \<circ> floatTo16BitPCM) (channelData ab))"
    using take_payload [of ab] by simp
  show ?thesis
    unfolding decode_wav_def parse_wav_header_image
    using m by (simp add: ToUint32_sizes length_wav_image t q)
qed

lemma decoded_samples_eq:
  "36 + 2 * length (channelData ab) < 2 ^ 32 \<Longrightarrow>
   decoded_samples ab = Some (map (\<lambda>s. dequantize (floatTo16BitPCM s)) (channelData ab))"
  by (simp add: decoded_samples_def audioBufferToWav_image decode_wav_image)

lemma decoded_samples_wrapped:
  "decoded_samples \<lparr>sampleRate = 16000, channelData = replicate (2 ^ 31) 0\<rparr> = Some []"
proof -
  let ?ab = "\<lparr>sampleRate = 16000, channelData = replicate (2 ^ 31) (0::real)\<rparr>"
  have "ToUint32 (36 + real (length (channelData ?ab)) * 2) = 36"
    "ToUint32 (real (length (channelData ?ab)) * 2) = 0"
    by (simp_all add: ToUint32_def js_trunc_def)
  then show ?thesis
    unfolding decoded_samples_def audioBufferToWav_image
    by (simp add: decode_wav_def parse_wav_header_image length_wav_image)
qed

section \<open>The encoder's claims\<close>

text \<open>
  Claim C1. Every sample of the decoded buffer is clamped to \<open>[-1, 1]\<close> and quantised
  to a signed 16-bit integer: a negative value is scaled by 32768, a non-negative value
  by 32767, and the product is rounded toward zero. The samples read back from the
  encoder's output are exactly these values; 1.0 gives 32767 and -1.0 gives -32768.
\<close>

theorem quantization_clamps_and_truncates:
  "encoded_samples ab = Some (map quantize_spec (channelData ab))
   \<and> floatTo16BitPCM s = quantize_spec s
   \<and> - 1 \<le> clamp_unit s \<and> clamp_unit s \<le> 1
   \<and> - 32768 \<le> quantize_spec s \<and> quantize_spec s \<le> 32767
   \<and> floatTo16BitPCM 1 = 32767
   \<and> floatTo16BitPCM (- 1) = - 32768"
proof -
  have "encoded_samples ab = Some (map floatTo16BitPCM (channelData ab))"
    by (simp add: encoded_samples_def audioBufferToWav_image parse_wav_samples_image)
  then have "encoded_samples ab = Some (map quantize_spec (channelData ab))"
    by (simp add: floatTo16BitPCM_spec)
  moreover have "- 32768 \<le> quantize_spec s \<and> quantize_spec s \<le> 32767"
    using floatTo16BitPCM_range [of s] by (simp add: floatTo16BitPCM_spec)
  ultimately show ?thesis
    using clamp_unit_range [of s]
    by (simp add: floatTo16BitPCM_spec [symmetric] floatTo16BitPCM_one floatTo16BitPCM_minus_one)
qed

text \<open>
  Claim C1 at a concrete buffer, with samples inside, on and beyond the bounds.
\<close>

theorem quantization_example:
  "encoded_samples \<lparr>sampleRate = 16000, channelData = [1, - 1, 1 / 2, - (1 / 2), 3, - 7 / 2, 0]\<rparr>
     = Some [32767, - 32768, 16383, - 16384, 32767, - 32768, 0]"
  using quantization_clamps_and_truncates
    [of "\<lparr>sampleRate = 16000, channelData = [1, - 1, 1 / 2, - (1 / 2), 3, - 7 / 2, 0]\<rparr>" 0]
  by (simp add: quantize_spec_def clamp_unit_def round_toward_zero_def)

text \<open>
  Claim C2, as stated, asks the \<^verbatim>\<open>data\<close> size field to be \<open>2 * n\<close> for every length
  \<open>n\<close>. The field is 32 bits wide and \<^verbatim>\<open>setUint32\<close> stores its argument modulo
  \<open>2 ^ 32\<close>: a buffer of \<open>2 ^ 31\<close> samples has a payload of \<open>2 ^ 32\<close> bytes and a
  size field of 0.
\<close>

theorem data_size_wraps_at_2_31_samples:
  "map_option dataSize (encoded_header \<lparr>sampleRate = 16000, channelData = replicate (2 ^ 31) 0\<rparr>) = Some 0
   \<and> 2 * length (channelData \<lparr>sampleRate = 16000, channelData = replicate (2 ^ 31) 0\<rparr>) = 4294967296"
  using header_sizes [of "\<lparr>sampleRate = 16000, channelData = replicate (2 ^ 31) 0\<rparr>"]
  by simp

text \<open>
  Claim C2, amended. The output is always \<open>44 + 2 * n\<close> bytes long and the size
  fields hold \<open>2 * n\<close> and \<open>36 + 2 * n\<close> modulo \<open>2 ^ 32\<close>; whenever
  \<open>36 + 2 * n < 2 ^ 32\<close> the \<^verbatim>\<open>data\<close> size is \<open>2 * n\<close> and the RIFF chunk size is
  \<open>36 + 2 * n\<close>. An empty buffer gives the 44-byte header alone, with data size 0.
\<close>

theorem header_sizes_match_payload:
  "map_option length (encoded_bytes ab) = Some (44 + 2 * length (channelData ab))
   \<and> map_option dataSize (encoded_header ab) = Some ((2 * length (channelData ab)) mod 2 ^ 32)
   \<and> map_option chunkSize (encoded_header ab) = Some ((36 + 2 * length (channelData ab)) mod 2 ^ 32)
   \<and> (36 + 2 * length (channelData ab) < 2 ^ 32 \<longrightarrow>
        map_option dataSize (encoded_header ab) = Some (2 * length (channelData ab))
        \<and> map_option chunkSize (encoded_header ab) = Some (36 + 2 * length (channelData ab)))"
proof -
  have "36 + 2 * length (channelData ab) < 2 ^ 32 \<Longrightarrow>
        (2 * length (channelData ab)) mod 2 ^ 32 = 2 * length (channelData ab)
        \<and> (36 + 2 * length (channelData ab)) mod 2 ^ 32 = 36 + 2 * length (channelData ab)"
    by simp
  with header_sizes [of ab] show ?thesis by presburger
qed

text \<open>
  Claim C2 (amended) at the empty buffer and at a buffer of three samples.
\<close>

theorem header_sizes_empty_buffer:
  "map_option length (encoded_bytes \<lparr>sampleRate = 16000, channelData = []\<rparr>) = Some 44
   \<and> map_option dataSize (encoded_header \<lparr>sampleRate = 16000, channelData = []\<rparr>) = Some 0
   \<and> map_option chunkSize (encoded_header \<lparr>sampleRate = 16000, channelData = []\<rparr>) = Some 36
   \<and> map_option dataSize (encoded_header \<lparr>sampleRate = 16000, channelData = [1 / 2, 0, - 1]\<rparr>) = Some 6
   \<and> map_option chunkSize (encoded_header \<lparr>sampleRate = 16000, channelData = [1 / 2, 0, - 1]\<rparr>) = Some 42"
  using header_sizes_match_payload [of "\<lparr>sampleRate = 16000, channelData = []\<rparr>"]
    header_sizes_match_payload [of "\<lparr>sampleRate = 16000, channelData = [1 / 2, 0, - 1]\<rparr>"]
  by simp

text \<open>
  Claim C3, as stated, asks for a sample rate field of 16000 for every input buffer. The
  encoder writes \<^verbatim>\<open>audioBuffer.sampleRate\<close>: a buffer at 44100 Hz gets a header
  that says 44100 Hz and a byte rate of 88200.
\<close>

theorem header_rate_follows_buffer:
  "map_option samplesPerSec (encoded_header \<lparr>sampleRate = 44100, channelData = []\<rparr>) = Some 44100
   \<and> map_option byteRate (encoded_header \<lparr>sampleRate = 44100, channelData = []\<rparr>) = Some 88200
   \<and> map_option samplesPerSec (encoded_header \<lparr>sampleRate = 44100, channelData = []\<rparr>) \<noteq> Some 16000"
proof -
  have "(44100::real) = real 44100" "(88200::real) = real 88200" by simp_all
  then have "ToUint32 44100 = 44100" "ToUint32 88200 = 88200"
    by (simp_all only: ToUint32_of_nat) simp_all
  with header_format [of "\<lparr>sampleRate = 44100, channelData = []\<rparr>"] show ?thesis by auto
qed

text \<open>
  Claim C3, amended. For every input buffer the header carries the tags
  \<open>RIFF\<close>, \<open>WAVE\<close>, \<open>fmt \<close> and \<open>data\<close>, format tag 1, one channel, block align
  \<open>1 * 16 / 8\<close> and bit depth 16. Its sample rate field is the rate of the input
  buffer as \<^verbatim>\<open>setUint32\<close> stores it, that is, its integer part modulo \<open>2 ^ 32\<close>,
  and its byte rate field is the rate times \<open>1 * 16 / 8\<close>, stored the same way. When
  the rate is a whole number \<open>r < 2 ^ 31\<close> the two fields are \<open>r\<close> and
  \<open>r * 1 * 16 / 8\<close>. For a buffer at 16000 Hz, which is what the 16 kHz audio context
  of \<^verbatim>\<open>convertToWavAndTranscribe\<close> decodes to, the header read back is the 16 kHz,
  mono, 16-bit configuration.
\<close>

theorem header_describes_buffer_rate_mono_16bit:
  "map_option (\<lambda>h. (riffTag h, waveTag h, fmtTag h, dataTag h)) (encoded_header ab)
     = Some (''RIFF'', ''WAVE'', ''fmt '', ''data'')
   \<and> map_option (\<lambda>h. (audioFormat h, channels h, blockAlign h, bitsPerSample h)) (encoded_header ab)
     = Some (1, 1, 1 * 16 div 8, 16)
   \<and> map_option samplesPerSec (encoded_header ab) = Some (ToUint32 (sampleRate ab))
   \<and> map_option byteRate (encoded_header ab) = Some (ToUint32 (sampleRate ab * 1 * 16 / 8))
   \<and> (sampleRate ab = real r \<and> r < 2 ^ 31 \<longrightarrow>
        map_option samplesPerSec (encoded_header ab) = Some r
        \<and> map_option byteRate (encoded_header ab) = Some (r * 1 * 16 div 8))
   \<and> (sampleRate ab = 16000 \<longrightarrow>
        map_option samplesPerSec (encoded_header ab) = Some 16000
        \<and> map_option byteRate (encoded_header ab) = Some 32000)"
proof -
  have nat_rate: "ToUint32 (real r) = r \<and> ToUint32 (real r * 1 * 16 / 8) = r * 1 * 16 div 8"
    if "r < 2 ^ 31" for r
  proof -
    have "real r * 1 * 16 / 8 = real (2 * r)" by simp
    then have "ToUint32 (real r * 1 * 16 / 8) = (2 * r) mod 2 ^ 32"
      by (simp only: ToUint32_of_nat)
    with that show ?thesis by (simp add: ToUint32_of_nat)
  qed
  have k: "(16000::real) = real 16000" by simp
  have "ToUint32 16000 = 16000 \<and> ToUint32 (16000 * 1 * 16 / 8) = 32000"
    using nat_rate [of 16000] unfolding k [symmetric] by simp
  with nat_rate [of r] header_format [of ab] show ?thesis
    by auto
qed

text \<open>
  Claim C3 (amended) at a buffer of two samples at 16000 Hz, and at a rate of 22050.5 Hz,
  where the fields hold the integer parts 22050 and 44101.
\<close>

theorem header_at_16_kHz:
  "map_option (\<lambda>h. (riffTag h, waveTag h, fmtTag h, dataTag h))
       (encoded_header \<lparr>sampleRate = 16000, channelData = [1 / 2, - 1]\<rparr>)
     = Some (''RIFF'', ''WAVE'', ''fmt '', ''data'')
   \<and> map_option (\<lambda>h. (audioFormat h, channels h, samplesPerSec h, byteRate h, blockAlign h, bitsPerSample h))
       (encoded_header \<lparr>sampleRate = 16000, channelData = [1 / 2, - 1]\<rparr>)
     = Some (1, 1, 16000, 32000, 2, 16)
   \<and> map_option samplesPerSec (encoded_header \<lparr>sampleRate = 44101 / 2, channelData = []\<rparr>)
     = Some 22050
   \<and> map_option byteRate (encoded_header \<lparr>sampleRate = 44101 / 2, channelData = []\<rparr>)
     = Some 44101"
proof -
  have "ToUint32 (44101 / 2) = 22050" "ToUint32 (44101 / 2 * 1 * 16 / 8) = 44101"
    by (simp_all add: ToUint32_def js_trunc_def)
  with header_describes_buffer_rate_mono_16bit [of "\<lparr>sampleRate = 16000, channelData = [1 / 2, - 1]\<rparr>" 16000]
    header_describes_buffer_rate_mono_16bit [of "\<lparr>sampleRate = 44101 / 2, channelData = []\<rparr>" 0]
  show ?thesis by auto
qed

text \<open>
  Claim C4, as stated, covers every sample sequence with values in \<open>[-1, 1]\<close>. A reader
  takes the length of the payload from the \<^verbatim>\<open>data\<close> size field, which is 32 bits
  wide: for \<open>2 ^ 31\<close> samples of silence the field reads 0, the header is consistent,
  and the reader decodes no sample at all.
\<close>

theorem round_trip_loses_2_31_samples:
  "decoded_samples \<lparr>sampleRate = 16000, channelData = replicate (2 ^ 31) 0\<rparr> = Some []
   \<and> length (channelData \<lparr>sampleRate = 16000, channelData = replicate (2 ^ 31) 0\<rparr>) = 2 ^ 31"
  using decoded_samples_wrapped by simp

text \<open>
  Claim C4, amended. When every sample of the input lies in \<open>[-1, 1]\<close> and the file
  fits its 32-bit size fields (\<open>36 + 2 * n < 2 ^ 32\<close> for \<open>n\<close> samples), a reader that
  checks the header of the encoder's output (tags, linear PCM, one channel, 16 bits, block
  align 2, consistent sizes) accepts it, reads the 16-bit little-endian payload that the
  \<^verbatim>\<open>data\<close> size field announces, and after undoing the scaling gives as many
  samples as the input has, each less than one quantisation step away from the input
  sample: less than \<open>1 / 32768\<close> for a negative sample and less than \<open>1 / 32767\<close>
  otherwise.
\<close>

theorem round_trip_within_one_step:
  assumes "\<forall>s \<in> set (channelData ab). - 1 \<le> s \<and> s \<le> 1"
    and "36 + 2 * length (channelData ab) < 2 ^ 32"
  shows "\<exists>decoded. decoded_samples ab = Some decoded
           \<and> length decoded = length (channelData ab)
           \<and> (\<forall>i < length (channelData ab).
                 \<bar>decoded ! i - channelData ab ! i\<bar>
                   < (if channelData ab ! i < 0 then 1 / 32768 else 1 / 32767)
                 \<and> \<bar>decoded ! i - channelData ab ! i\<bar> < 1 / 32767)"
proof -
  let ?d = "map (\<lambda>s. dequantize (floatTo16BitPCM s)) (channelData ab)"
  have "\<bar>?d ! i - channelData ab ! i\<bar> < (if channelData ab ! i < 0 then 1 / 32768 else 1 / 32767)
        \<and> \<bar>?d ! i - channelData ab ! i\<bar> < 1 / 32767"
    if "i < length (channelData ab)" for i
  proof -
    from that assms have r: "- 1 \<le> channelData ab ! i" "channelData ab ! i \<le> 1"
      by (auto simp: all_set_conv_all_nth)
    have "\<bar>dequantize (floatTo16BitPCM (channelData ab ! i)) - channelData ab ! i\<bar>
            < (if channelData ab ! i < 0 then 1 / 32768 else 1 / 32767)"
      using r by (rule dequantize_error)
    moreover have "(if channelData ab ! i < 0 then 1 / 32768 else 1 / 32767) \<le> (1 / 32767 :: real)"
      by simp
    ultimately show ?thesis using that by simp
  qed
  then show ?thesis using assms(2) by (simp add: decoded_samples_eq)
qed

text \<open>
  Claim C4 (amended) at a buffer of four samples: three are reproduced exactly, and 0.5
  comes back as \<open>16383 / 32767\<close>.
\<close>

theorem round_trip_example:
  "decoded_samples \<lparr>sampleRate = 16000, channelData = [1, - 1, 1 / 2, - (1 / 4)]\<rparr>
     = Some [1, - 1, 16383 / 32767, - (1 / 4)]
   \<and> \<bar>16383 / 32767 - 1 / 2\<bar> < (1 / 32767 :: real)"
proof -
  obtain decoded where
    d: "decoded_samples \<lparr>sampleRate = 16000, channelData = [1, - 1, 1 / 2, - (1 / 4)]\<rparr> = Some decoded"
    and e: "\<forall>i < length (channelData \<lparr>sampleRate = 16000, channelData = [1, - 1, 1 / 2, - (1 / 4)]\<rparr>).
       \<bar>decoded ! i - channelData \<lparr>sampleRate = 16000, channelData = [1, - 1, 1 / 2, - (1 / 4)]\<rparr> ! i\<bar>
          < (if channelData \<lparr>sampleRate = 16000, channelData = [1, - 1, 1 / 2, - (1 / 4)]\<rparr> ! i < 0
             then 1 / 32768 else 1 / 32767)
       \<and> \<bar>decoded ! i - channelData \<lparr>sampleRate = 16000, channelData = [1, - 1, 1 / 2, - (1 / 4)]\<rparr> ! i\<bar>
          < 1 / 32767"
    using round_trip_within_one_step [of "\<lparr>sampleRate = 16000, channelData = [1, - 1, 1 / 2, - (1 / 4)]\<rparr>"]
    by auto
  have v: "decoded = [1, - 1, 16383 / 32767, - (1 / 4)]"
    using d by (simp add: decoded_samples_eq floatTo16BitPCM_def ToInt16_def js_trunc_def dequantize_def)
  from e have "\<bar>decoded ! 2 - 1 / 2\<bar> < 1 / 32767" by (auto dest: spec [of _ 2])
  with v d show ?thesis by simp
qed


section \<open>Properties of the component\<close>

lemma fold_ondataavailable:
  "fold ondataavailable cs st
     = st\<lparr>audioChunksRef := audioChunksRef st @ filter (\<lambda>c. length c > 0) cs\<rparr>"
  by (induction cs arbitrary: st) (simp_all add: ondataavailable_def)



lemma handleAudioTranscription_frame:
  "streams (handleAudioTranscription browser wav st) = streams st"
  "blobs (handleAudioTranscription browser wav st) = blobs st"
  "sent (handleAudioTranscription browser wav st) = sent st"
  "pendingStops (handleAudioTranscription browser wav st) = pendingStops st"
  by (simp_all add: handleAudioTranscription_def alert_def Let_def split: TranscribeOutcome.split)

lemma handleAudioTranscription_inputText:
  "inputText (handleAudioTranscription browser wav st)
     = (case transcribeAudio browser wav of
          Returned result \<Rightarrow> if success result then result_text result else inputText st
        | Threw \<Rightarrow> inputText st)"
  by (simp add: handleAudioTranscription_def alert_def Let_def split: TranscribeOutcome.split)

lemma stopTracks_streams:
  "streams (stopTracks s st)
     = (if s < length (streams st) then (streams st)[s := map (\<lambda>live. False) (streams st ! s)]
        else streams st)"
  by (simp add: stopTracks_def)

lemma stopTracks_frame:
  "blobs (stopTracks s st) = blobs st"
  "inputText (stopTracks s st) = inputText st"
  by (simp_all add: stopTracks_def)

lemma convertToWavAndTranscribe_streams:
  "streams (convertToWavAndTranscribe browser audioBlob s st)
     = (if s < length (streams st) then (streams st)[s := map (\<lambda>live. False) (streams st ! s)]
        else streams st)"
  by (auto simp: convertToWavAndTranscribe_def Let_def stopTracks_streams
      handleAudioTranscription_frame alert_def audioBufferToWav_image
      split: option.split bind_split)


lemma onstop_streams:
  "streams (onstop browser r st)
     = (if stream r < length (streams st)
        then (streams st)[stream r := map (\<lambda>live. False) (streams st ! stream r)]
        else streams st)"
  by (simp add: onstop_def Let_def convertToWavAndTranscribe_streams)


lemma startRecording_started:
  assumes "isRecording (startRecording browser st)" "\<not> isRecording st"
  obtains k where "getUserMedia browser = Some k"
    and "startRecording browser st
          = st\<lparr>streams := streams st @ [replicate k True],
               mediaRecorderRef := Some \<lparr>mimeType = recorderOptions (supportedTypes browser),
                                          stream = length (streams st)\<rparr>,
               audioChunksRef := [],
               isRecording := True\<rparr>"
  using assms
  by (auto simp: startRecording_def alert_def Let_def split: option.splits if_splits)

lemma captureCycle_started:
  assumes "getUserMedia browser = Some k"
    and "startRecording browser st
          = st\<lparr>streams := streams st @ [replicate k True],
               mediaRecorderRef := Some r, audioChunksRef := [], isRecording := True\<rparr>"
    and "pendingStops st = []"
  shows "captureCycle browser chunks flushed st
     = onstop browser r
        (st\<lparr>streams := streams st @ [replicate k True],
            mediaRecorderRef := Some r,
            audioChunksRef := filter (\<lambda>c. length c > 0) (chunks @ flushed),
            isRecording := False,
            pendingStops := []\<rparr>)"
  using assms(2,3)
  by (cases st)
     (simp add: captureCycle_def fold_ondataavailable stopRecording_def deliverStop_def)

text \<open>
  When the recorder cannot be constructed, \<^verbatim>\<open>startRecording\<close> ends in its
  \<^verbatim>\<open>catch\<close> branch: no recording starts, and the stream that was acquired keeps
  its tracks.
\<close>

lemma startRecording_unsupported_type:
  assumes "getUserMedia browser = Some k"
    and "\<not> isTypeSupported browser (recorderOptions (supportedTypes browser))"
  shows "streams (startRecording browser st) = streams st @ [replicate k True]"
    and "isRecording (startRecording browser st) = isRecording st"
    and "mediaRecorderRef (startRecording browser st) = mediaRecorderRef st"
  using assms by (simp_all add: startRecording_def alert_def Let_def)

lemma convertToWavAndTranscribe_inputText:
  "inputText (convertToWavAndTranscribe browser audioBlob s st) \<noteq> inputText st \<Longrightarrow>
   \<exists>wav r. transcribeAudio browser wav = Returned r \<and> success r
     \<and> inputText (convertToWavAndTranscribe browser audioBlob s st) = result_text r"
  by (auto simp: convertToWavAndTranscribe_def Let_def stopTracks_frame alert_def
      handleAudioTranscription_inputText
      split: option.splits bind_splits TranscribeOutcome.splits if_splits)

lemma onstop_inputText:
  "inputText (onstop browser r0 st) \<noteq> inputText st \<Longrightarrow>
   \<exists>wav r. transcribeAudio browser wav = Returned r \<and> success r
     \<and> inputText (onstop browser r0 st) = result_text r"
  using convertToWavAndTranscribe_inputText
    [of browser "\<lparr>blob_data = concat (audioChunksRef st), blob_type = mimeType r0\<rparr>" "stream r0"
        "st\<lparr>blobs := blobs st @ [\<lparr>blob_data = concat (audioChunksRef st), blob_type = mimeType r0\<rparr>]\<rparr>"]
  by (simp add: onstop_def Let_def)

lemma last_dropWhile: "dropWhile P xs \<noteq> [] \<Longrightarrow> last (dropWhile P xs) = last xs"
  by (induction xs) (auto split: if_splits)

lemma trim_ends:
  assumes "trim s \<noteq> []"
  shows "\<not> isWhiteSpace (hd (trim s))" and "\<not> isWhiteSpace (last (trim s))"
proof -
  let ?d = "dropWhile isWhiteSpace s"
  let ?e = "dropWhile isWhiteSpace (rev ?d)"
  from assms have e: "?e \<noteq> []" by (simp add: trim_def)
  have d: "?d \<noteq> []"
  proof
    assume "?d = []"
    with e show False by simp
  qed
  have "hd (trim s) = last ?e" using e by (simp add: trim_def hd_rev)
  also have "\<dots> = last (rev ?d)" using e by (rule last_dropWhile)
  also have "\<dots> = hd ?d" using d by (simp add: last_rev)
  finally have "hd (trim s) = hd ?d" .
  with d show "\<not> isWhiteSpace (hd (trim s))" by (simp add: hd_dropWhile)
  have "last (trim s) = hd ?e" using e by (simp add: trim_def last_rev)
  with e show "\<not> isWhiteSpace (last (trim s))" by (simp add: hd_dropWhile)
qed

lemma trim_decomposition:
  "\<exists>pre post. s = pre @ trim s @ post
      \<and> (\<forall>c \<in> set pre. isWhiteSpace c) \<and> (\<forall>c \<in> set post. isWhiteSpace c)"
proof -
  let ?d = "dropWhile isWhiteSpace s"
  let ?pre = "takeWhile isWhiteSpace s"
  let ?post = "rev (takeWhile isWhiteSpace (rev ?d))"
  have "rev (takeWhile isWhiteSpace (rev ?d) @ dropWhile isWhiteSpace (rev ?d)) = rev (rev ?d)"
    by (simp only: takeWhile_dropWhile_id)
  then have "rev (dropWhile isWhiteSpace (rev ?d)) @ ?post = ?d"
    by (simp only: rev_append rev_rev_ident)
  then have "?d = trim s @ ?post" by (simp only: trim_def)
  then have "s = ?pre @ trim s @ ?post"
    using takeWhile_dropWhile_id [of isWhiteSpace s] by simp
  moreover have "\<forall>c \<in> set ?pre. isWhiteSpace c" by (auto dest: set_takeWhileD)
  moreover have "\<forall>c \<in> set ?post. isWhiteSpace c" by (auto dest: set_takeWhileD)
  ultimately show ?thesis by blast
qed





text \<open>
  Once recording has started, the capture cycle ends with every track of the acquired
  microphone stream stopped, whatever the audio context, the decoder and the
  transcription service answer: on a successful transcription, on a decode failure and on
  any other failure of the processing after the stop event.
\<close>

lemma started_cycle_stops_all_tracks:
  assumes "isRecording (startRecording browser st)" and "\<not> isRecording st"
    and "pendingStops st = []"
  shows "\<exists>k. getUserMedia browser = Some k
           \<and> streams (startRecording browser st) = streams st @ [replicate k True]
           \<and> streams (captureCycle browser chunks flushed st) = streams st @ [replicate k False]"
proof -
  from assms(1,2) obtain k where k: "getUserMedia browser = Some k"
    and s: "startRecording browser st
          = st\<lparr>streams := streams st @ [replicate k True],
               mediaRecorderRef := Some \<lparr>mimeType = recorderOptions (supportedTypes browser),
                                          stream = length (streams st)\<rparr>,
               audioChunksRef := [],
               isRecording := True\<rparr>"
    by (rule startRecording_started)
  have "streams (captureCycle browser chunks flushed st) = streams st @ [replicate k False]"
    unfolding captureCycle_started [OF k s assms(3)] by (simp add: onstop_streams)
  with k s show ?thesis by simp
qed

text \<open>
  Four such cycles: one that succeeds, one whose decoding fails, one whose transcription
  call throws, and one with no audio context.
\<close>

lemma started_cycle_stops_all_tracks_example:
  "streams (captureCycle demoBrowser [[1, 2], [3]] [[4]] demoState) = [[False]]
   \<and> streams (captureCycle (demoBrowser\<lparr>decodeAudioData := \<lambda>rate bytes. None\<rparr>)
        [[1, 2], [3]] [[4]] demoState) = [[False]]
   \<and> streams (captureCycle (demoBrowser\<lparr>transcribeAudio := \<lambda>wav. Threw\<rparr>)
        [[1, 2], [3]] [[4]] demoState) = [[False]]
   \<and> streams (captureCycle (demoBrowser\<lparr>audioContextAvailable := False\<rparr>)
        [[1, 2], [3]] [[4]] demoState) = [[False]]"
  using started_cycle_stops_all_tracks [of demoBrowser demoState "[[1, 2], [3]]" "[[4]]"]
    started_cycle_stops_all_tracks [of "demoBrowser\<lparr>decodeAudioData := \<lambda>rate bytes. None\<rparr>" demoState "[[1, 2], [3]]" "[[4]]"]
    started_cycle_stops_all_tracks [of "demoBrowser\<lparr>transcribeAudio := \<lambda>wav. Threw\<rparr>" demoState "[[1, 2], [3]]" "[[4]]"]
    started_cycle_stops_all_tracks [of "demoBrowser\<lparr>audioContextAvailable := False\<rparr>" demoState "[[1, 2], [3]]" "[[4]]"]
  by (simp add: startRecording_def demoBrowser_def demoState_def recorderOptions_def
      isTypeSupported_def Let_def)


section \<open>The component's claims\<close>

text \<open>
  Claim C5 asks that no capture cycle ends with live microphone tracks. The paths through
  \<^verbatim>\<open>convertToWavAndTranscribe\<close> stop the tracks, in the \<^verbatim>\<open>try\<close> block and in
  the \<^verbatim>\<open>catch\<close> block alike (\<open>started_cycle_stops_all_tracks\<close>). The
  \<^verbatim>\<open>catch\<close> block of \<^verbatim>\<open>startRecording\<close> does not: on a browser that grants the
  microphone and supports none of the three recording types (one that records
  \<^verbatim>\<open>audio/mp4\<close> only), \<^verbatim>\<open>new MediaRecorder(stream, options)\<close> throws after the
  stream was acquired, the handler only alerts, and the cycle ends with the track live. No
  recorder was stored, so no later stop releases it.
\<close>

theorem failed_start_leaves_track_live:
  "streams (startRecording (demoBrowser\<lparr>supportedTypes := {''audio/mp4''}\<rparr>) demoState) = [[True]]
   \<and> streams (captureCycle (demoBrowser\<lparr>supportedTypes := {''audio/mp4''}\<rparr>) [] [] demoState)
       = [[True]]
   \<and> mediaRecorderRef (captureCycle (demoBrowser\<lparr>supportedTypes := {''audio/mp4''}\<rparr>) [] [] demoState)
       = None
   \<and> isRecording (captureCycle (demoBrowser\<lparr>supportedTypes := {''audio/mp4''}\<rparr>) [] [] demoState)
       = False
   \<and> alerts (captureCycle (demoBrowser\<lparr>supportedTypes := {''audio/mp4''}\<rparr>) [] [] demoState)
       = [js ''Could not access microphone. Please check permissions.'']"
  by (simp add: captureCycle_def startRecording_def stopRecording_def deliverStop_def alert_def
      demoBrowser_def demoState_def recorderOptions_def isTypeSupported_def Let_def)



text \<open>
  Claim C7. The recording type is a function of the set of supported types alone:
  \<^verbatim>\<open>audio/wav\<close> if supported, else \<^verbatim>\<open>audio/webm;codecs=opus\<close> if supported,
  else \<^verbatim>\<open>audio/webm\<close>. Two sets that agree on the first two types give the same
  choice, and the recorder that \<^verbatim>\<open>startRecording\<close> creates has the chosen type.
\<close>

theorem recorder_type_by_preference:
  "recorderOptions S
     = (if ''audio/wav'' \<in> S then ''audio/wav''
        else if ''audio/webm;codecs=opus'' \<in> S then ''audio/webm;codecs=opus''
        else ''audio/webm'')
   \<and> ((''audio/wav'' \<in> S \<longleftrightarrow> ''audio/wav'' \<in> S')
        \<and> (''audio/webm;codecs=opus'' \<in> S \<longleftrightarrow> ''audio/webm;codecs=opus'' \<in> S')
        \<longrightarrow> recorderOptions S = recorderOptions S')
   \<and> (isRecording (startRecording browser st) \<and> \<not> isRecording st
        \<longrightarrow> map_option mimeType (mediaRecorderRef (startRecording browser st))
              = Some (recorderOptions (supportedTypes browser)))"
proof -
  have "map_option mimeType (mediaRecorderRef (startRecording browser st))
              = Some (recorderOptions (supportedTypes browser))"
    if "isRecording (startRecording browser st)" "\<not> isRecording st"
    using that by (rule startRecording_started) simp
  then show ?thesis by (simp add: recorderOptions_def Let_def)
qed

text \<open>
  Claim C7 on three sets of supported types.
\<close>

theorem recorder_type_by_preference_witness:
  "recorderOptions {''audio/wav'', ''audio/webm'', ''audio/webm;codecs=opus''} = ''audio/wav''
   \<and> recorderOptions {''audio/webm'', ''audio/webm;codecs=opus''} = ''audio/webm;codecs=opus''
   \<and> recorderOptions {''audio/webm'', ''audio/mp4''} = ''audio/webm''
   \<and> recorderOptions {''audio/mp4'', ''audio/webm;codecs=opus''}
       = recorderOptions {''audio/webm'', ''audio/webm;codecs=opus''}
   \<and> map_option mimeType (mediaRecorderRef (startRecording demoBrowser demoState))
       = Some ''audio/webm;codecs=opus''"
  using recorder_type_by_preference [of "{''audio/wav'', ''audio/webm'', ''audio/webm;codecs=opus''}" "{}" demoBrowser demoState]
    recorder_type_by_preference [of "{''audio/webm'', ''audio/webm;codecs=opus''}" "{''audio/mp4'', ''audio/webm;codecs=opus''}" demoBrowser demoState]
    recorder_type_by_preference [of "{''audio/webm'', ''audio/mp4''}" "{}" demoBrowser demoState]
  by (simp add: startRecording_def demoBrowser_def demoState_def isTypeSupported_def
      recorderOptions_def Let_def)

text \<open>
  Claim C8. When the transcription call throws or returns \<^verbatim>\<open>success = false\<close>,
  the input field keeps its text. The field is assigned only when the result reports
  success, and then it holds the result's text; this is so for the transcription handler
  and for the whole handling of a stop event.
\<close>

theorem failed_transcription_keeps_input:
  "((transcribeAudio browser wav = Threw
      \<or> (\<exists>r. transcribeAudio browser wav = Returned r \<and> \<not> success r))
     \<longrightarrow> inputText (handleAudioTranscription browser wav st) = inputText st)
   \<and> (inputText (handleAudioTranscription browser wav st) \<noteq> inputText st
     \<longrightarrow> (\<exists>r. transcribeAudio browser wav = Returned r \<and> success r
            \<and> inputText (handleAudioTranscription browser wav st) = result_text r))
   \<and> (inputText (onstop browser mediaRecorder st) \<noteq> inputText st
     \<longrightarrow> (\<exists>w r. transcribeAudio browser w = Returned r \<and> success r
            \<and> inputText (onstop browser mediaRecorder st) = result_text r))"
proof -
  have "inputText (onstop browser mediaRecorder st) \<noteq> inputText st
     \<longrightarrow> (\<exists>w r. transcribeAudio browser w = Returned r \<and> success r
            \<and> inputText (onstop browser mediaRecorder st) = result_text r)"
    using onstop_inputText by blast
  then show ?thesis
    by (auto simp: handleAudioTranscription_inputText split: TranscribeOutcome.splits if_splits)
qed

text \<open>
  Claim C8 on a call that throws, a call that reports failure and a call that succeeds.
\<close>

theorem failed_transcription_keeps_input_witness:
  "inputText (handleAudioTranscription (demoBrowser\<lparr>transcribeAudio := \<lambda>wav. Threw\<rparr>)
      \<lparr>blob_data = [], blob_type = ''audio/wav''\<rparr> demoState) = js ''draft''
   \<and> inputText (handleAudioTranscription
        (demoBrowser\<lparr>transcribeAudio := \<lambda>wav. Returned \<lparr>success = False, result_text = js ''hi'',
                                                         result_error = js ''no speech''\<rparr>\<rparr>)
        \<lparr>blob_data = [], blob_type = ''audio/wav''\<rparr> demoState) = js ''draft''
   \<and> inputText (handleAudioTranscription demoBrowser
        \<lparr>blob_data = [], blob_type = ''audio/wav''\<rparr> demoState) = js ''hi''"
  using failed_transcription_keeps_input
      [of "demoBrowser\<lparr>transcribeAudio := \<lambda>wav. Threw\<rparr>"
          "\<lparr>blob_data = [], blob_type = ''audio/wav''\<rparr>" demoState "\<lparr>mimeType = [], stream = 0\<rparr>"]
    failed_transcription_keeps_input
      [of "demoBrowser\<lparr>transcribeAudio := \<lambda>wav. Returned \<lparr>success = False, result_text = js ''hi'',
                                                         result_error = js ''no speech''\<rparr>\<rparr>"
          "\<lparr>blob_data = [], blob_type = ''audio/wav''\<rparr>" demoState "\<lparr>mimeType = [], stream = 0\<rparr>"]
    failed_transcription_keeps_input
      [of demoBrowser "\<lparr>blob_data = [], blob_type = ''audio/wav''\<rparr>" demoState "\<lparr>mimeType = [], stream = 0\<rparr>"]
  by (simp add: demoBrowser_def demoState_def js_def handleAudioTranscription_inputText)

text \<open>
  Claim C9. \<^verbatim>\<open>stopRecording\<close> without a recorder, or with the recording flag
  off, leaves the state as it is: no recorder is stopped, so no stop event is pending and
  no blob is built.
\<close>

theorem stop_without_recording_is_noop:
  assumes "mediaRecorderRef st = None \<or> \<not> isRecording st"
  shows "stopRecording st = st
         \<and> pendingStops (stopRecording st) = pendingStops st
         \<and> blobs (stopRecording st) = blobs st
         \<and> (pendingStops st = [] \<longrightarrow> deliverStop browser (stopRecording st) = st)"
  using assms by (auto simp: stopRecording_def deliverStop_def split: option.splits)

text \<open>
  Claim C9 on a state with no recorder and on a state with a recorder that is not
  recording.
\<close>

theorem stop_without_recording_is_noop_witness:
  "stopRecording demoState = demoState
   \<and> deliverStop demoBrowser (stopRecording demoState) = demoState
   \<and> stopRecording (demoState\<lparr>mediaRecorderRef := Some \<lparr>mimeType = ''audio/webm'', stream = 0\<rparr>\<rparr>)
       = demoState\<lparr>mediaRecorderRef := Some \<lparr>mimeType = ''audio/webm'', stream = 0\<rparr>\<rparr>"
  using stop_without_recording_is_noop [of demoState demoBrowser]
    stop_without_recording_is_noop
      [of "demoState\<lparr>mediaRecorderRef := Some \<lparr>mimeType = ''audio/webm'', stream = 0\<rparr>\<rparr>" demoBrowser]
  by (simp add: demoState_def deliverStop_def)

text \<open>
  Claim C10. \<^verbatim>\<open>handleSendText\<close> sends a message only if the trimmed input is not
  empty and no request is in flight. The message is the trimmed input: the input without
  its leading and trailing white space, so it neither starts nor ends with white space and
  is not white space only. The input field is then empty. In every other case the state
  is unchanged.
\<close>

theorem send_text_dispatches_trimmed_text:
  "(trim (inputText st) \<noteq> [] \<and> \<not> isLoading st \<longrightarrow>
      handleSendText st = st\<lparr>sent := sent st @ [trim (inputText st)], inputText := []\<rparr>
      \<and> sent (handleSendText st) = sent st @ [trim (inputText st)]
      \<and> inputText (handleSendText st) = []
      \<and> \<not> isWhiteSpace (hd (trim (inputText st)))
      \<and> \<not> isWhiteSpace (last (trim (inputText st)))
      \<and> (\<exists>c \<in> set (trim (inputText st)). \<not> isWhiteSpace c))
   \<and> (\<not> (trim (inputText st) \<noteq> [] \<and> \<not> isLoading st) \<longrightarrow> handleSendText st = st)
   \<and> (\<exists>pre post. inputText st = pre @ trim (inputText st) @ post
         \<and> (\<forall>c \<in> set pre. isWhiteSpace c) \<and> (\<forall>c \<in> set post. isWhiteSpace c))"
proof -
  have "\<not> isWhiteSpace (hd (trim (inputText st))) \<and> \<not> isWhiteSpace (last (trim (inputText st)))
        \<and> (\<exists>c \<in> set (trim (inputText st)). \<not> isWhiteSpace c)"
    if t: "trim (inputText st) \<noteq> []"
  proof -
    from t have "hd (trim (inputText st)) \<in> set (trim (inputText st))" by simp
    with trim_ends [OF t] show ?thesis by blast
  qed
  with trim_decomposition [of "inputText st"] show ?thesis
    by (simp add: handleSendText_def)
qed

text \<open>
  Claim C10 on an input with white space around it, on a blank input and on a request
  in flight.
\<close>

theorem send_text_dispatches_trimmed_text_witness:
  "sent (handleSendText (demoState\<lparr>inputText := js ''  hi there ''\<rparr>)) = [js ''hi there'']
   \<and> inputText (handleSendText (demoState\<lparr>inputText := js ''  hi there ''\<rparr>)) = []
   \<and> handleSendText (demoState\<lparr>inputText := js ''   ''\<rparr>) = demoState\<lparr>inputText := js ''   ''\<rparr>
   \<and> handleSendText (demoState\<lparr>isLoading := True\<rparr>) = demoState\<lparr>isLoading := True\<rparr>"
  using send_text_dispatches_trimmed_text [of "demoState\<lparr>inputText := js ''  hi there ''\<rparr>"]
    send_text_dispatches_trimmed_text [of "demoState\<lparr>inputText := js ''   ''\<rparr>"]
    send_text_dispatches_trimmed_text [of "demoState\<lparr>isLoading := True\<rparr>"]
  by (simp add: demoState_def js_def trim_def isWhiteSpace_def)

end
